theory Spec2Isabelle
  imports Main "HOL-Library.Sublist"
begin

section \<open>Strings of runes\<close>

text \<open>
  The commit pipeline of go-commitgen measures and cuts text in runes
  (\<^verbatim>\<open>len([]rune(s))\<close>, \<^verbatim>\<open>utf8.RuneCountInString\<close>, \<^verbatim>\<open>runes[:n-1]\<close>).
  A Go string is modelled as the list of its runes, a rune being a Unicode code point
  (Go's \<^verbatim>\<open>rune\<close> is \<^verbatim>\<open>int32\<close>). This covers the strings that are valid UTF-8, as
  the text decoded by \<^verbatim>\<open>encoding/json\<close> always is. The ASCII runes that the code
  searches for (\<^verbatim>\<open>/\<close>, \<^verbatim>\<open>{\<close>, \<^verbatim>\<open>}\<close>, the period, the newline) are single bytes
  that never occur inside the encoding of another rune, so a byte offset such as the
  one in \<^verbatim>\<open>idx < len(branch)-1\<close> is read as a position in the rune list.
\<close>

type_synonym rune = int
type_synonym gostring = "rune list"

definition runes :: "string \<Rightarrow> gostring" where
  "runes cs = map of_char cs"

definition RuneCountInString :: "gostring \<Rightarrow> nat" where
  "RuneCountInString s = length s"

text \<open>The one-rune string \<^verbatim>\<open>"\<dots>"\<close>, U+2026, that TruncateShorten appends.\<close>

definition ellipsis :: gostring where
  "ellipsis = [8230]"

subsection \<open>Package strings, as far as the pipeline calls it\<close>

text \<open>\<^verbatim>\<open>unicode.IsSpace\<close>: the Unicode White_Space code points.\<close>

definition IsSpace :: "rune \<Rightarrow> bool" where
  "IsSpace r = (r \<in> {9, 10, 11, 12, 13, 32, 133, 160, 5760, 8232, 8233, 8239, 8287, 12288}
      \<or> (8192 \<le> r \<and> r \<le> 8202))"

definition TrimSpace :: "gostring \<Rightarrow> gostring" where
  "TrimSpace s = rev (dropWhile IsSpace (rev (dropWhile IsSpace s)))"

text \<open>\<^verbatim>\<open>strings.Trim(s, cutset)\<close> and \<^verbatim>\<open>strings.TrimRight(s, cutset)\<close>.\<close>

definition Trim :: "gostring \<Rightarrow> gostring \<Rightarrow> gostring" where
  "Trim s cutset =
     rev (dropWhile (\<lambda>r. r \<in> set cutset) (rev (dropWhile (\<lambda>r. r \<in> set cutset) s)))"

definition TrimRight :: "gostring \<Rightarrow> gostring \<Rightarrow> gostring" where
  "TrimRight s cutset = rev (dropWhile (\<lambda>r. r \<in> set cutset) (rev s))"

text \<open>
  \<^verbatim>\<open>strings.ToLower\<close> maps every rune with \<^verbatim>\<open>unicode.ToLower\<close>: the letters
  \<^verbatim>\<open>A\<close> to \<^verbatim>\<open>Z\<close> move to \<^verbatim>\<open>a\<close> to \<^verbatim>\<open>z\<close>, any other ASCII rune stays, and a rune
  above ASCII is looked up in the Unicode case tables. Those tables belong to the Go
  library; they are the parameter \<open>tbl\<close>.
\<close>

definition ToLower_rune :: "(rune \<Rightarrow> rune) \<Rightarrow> rune \<Rightarrow> rune" where
  "ToLower_rune tbl r =
     (if r < 128 then (if 65 \<le> r \<and> r \<le> 90 then r + 32 else r) else tbl r)"

definition ToLower :: "(rune \<Rightarrow> rune) \<Rightarrow> gostring \<Rightarrow> gostring" where
  "ToLower tbl s = map (ToLower_rune tbl) s"

fun HasPrefix :: "gostring \<Rightarrow> gostring \<Rightarrow> bool" where
  "HasPrefix s [] = True"
| "HasPrefix [] (p # ps) = False"
| "HasPrefix (c # cs) (p # ps) = (c = p \<and> HasPrefix cs ps)"

fun Contains :: "gostring \<Rightarrow> gostring \<Rightarrow> bool" where
  "Contains [] sub = HasPrefix [] sub"
| "Contains (c # cs) sub = (HasPrefix (c # cs) sub \<or> Contains cs sub)"

text \<open>
  \<^verbatim>\<open>strings.Index\<close> and \<^verbatim>\<open>strings.LastIndex\<close>: the position of the first and of the
  last occurrence, \<open>-1\<close> when there is none.
\<close>

fun Index :: "gostring \<Rightarrow> gostring \<Rightarrow> int" where
  "Index [] sub = (if HasPrefix [] sub then 0 else -1)"
| "Index (c # cs) sub =
     (if HasPrefix (c # cs) sub then 0
      else (let i = Index cs sub in if i = -1 then -1 else i + 1))"

fun LastIndex :: "gostring \<Rightarrow> gostring \<Rightarrow> int" where
  "LastIndex [] sub = (if HasPrefix [] sub then 0 else -1)"
| "LastIndex (c # cs) sub =
     (let i = LastIndex cs sub in
      if i \<noteq> -1 then i + 1
      else if HasPrefix (c # cs) sub then 0 else -1)"

text \<open>\<^verbatim>\<open>strings.Split(s, sep)\<close> for a separator of one rune, and \<^verbatim>\<open>strings.Join\<close>.\<close>

fun Split :: "gostring \<Rightarrow> rune \<Rightarrow> gostring list" where
  "Split [] sep = [[]]"
| "Split (c # cs) sep =
     (if c = sep then [] # Split cs sep
      else (case Split cs sep of [] \<Rightarrow> [[c]] | l # ls \<Rightarrow> (c # l) # ls))"

fun Join :: "gostring list \<Rightarrow> gostring \<Rightarrow> gostring" where
  "Join [] sep = []"
| "Join [l] sep = l"
| "Join (l # m # ls) sep = l @ sep @ Join (m # ls) sep"

text \<open>\<^verbatim>\<open>strings.ReplaceAll(s, "\r\n", "\n")\<close>, the only replacement the code makes.\<close>

fun ReplaceAll_crlf :: "gostring \<Rightarrow> gostring" where
  "ReplaceAll_crlf [] = []"
| "ReplaceAll_crlf [c] = [c]"
| "ReplaceAll_crlf (c # d # cs) =
     (if c = 13 \<and> d = 10 then 10 # ReplaceAll_crlf cs else c # ReplaceAll_crlf (d # cs))"

section \<open>Package util\<close>

text \<open>
  The pattern \<^verbatim>\<open>\s+\<close> of Go's regexp syntax matches the ASCII white space
  \<^verbatim>\<open>[\t\n\f\r ]\<close>; CondenseSpaces replaces every maximal run of it by one space.
\<close>

definition whitespace :: "rune \<Rightarrow> bool" where
  "whitespace r = (r \<in> {9, 10, 12, 13, 32})"

function CondenseSpaces :: "gostring \<Rightarrow> gostring" where
  "CondenseSpaces [] = []"
| "CondenseSpaces (c # cs) =
     (if whitespace c then 32 # CondenseSpaces (dropWhile whitespace cs)
      else c # CondenseSpaces cs)"
  by pat_completeness auto
termination
  by (relation "measure length") (auto simp: length_dropWhile_le less_Suc_eq_le)

text \<open>
  TruncateShorten: \<open>n\<close> is a Go \<^verbatim>\<open>int\<close>; \<^verbatim>\<open>runes[:n-1]\<close> is only reached with
  \<open>0 < n < len(runes)\<close>, where the slice is in range.
\<close>

definition TruncateShorten :: "gostring \<Rightarrow> int \<Rightarrow> gostring" where
  "TruncateShorten s n =
     (if n \<le> 0 then []
      else if int (RuneCountInString s) \<le> n then s
      else take (nat (n - 1)) s @ ellipsis)"

definition TrimLines :: "gostring \<Rightarrow> gostring list" where
  "TrimLines s =
     (if s = [] then []
      else filter (\<lambda>line. line \<noteq> []) (map TrimSpace (Split (ReplaceAll_crlf s) 10)))"

section \<open>Package commit\<close>

record Parts =
  CommitType :: gostring
  Description :: gostring
  Summary :: gostring
  Body :: gostring

record Message =
  Headline :: gostring
  Body :: gostring

text \<open>
  The errors of ParseParts: \<^verbatim>\<open>"empty response"\<close>, \<^verbatim>\<open>"response missing JSON object"\<close>,
  and the error that \<^verbatim>\<open>json.Unmarshal\<close> reports.
\<close>

datatype error = empty_response | response_missing_JSON_object | unmarshal_error

text \<open>
  The map \<^verbatim>\<open>allowedCommitTypes\<close>, written as its entries. Its keys are distinct, so
  the lookup \<^verbatim>\<open>allowedCommitTypes[candidate]\<close> is \<open>map_of\<close> on the entries.
\<close>

definition allowedCommitTypes :: "(gostring \<times> gostring) list" where
  "allowedCommitTypes =
     [(runes ''feat'', runes ''feat''),
      (runes ''feature'', runes ''feat''),
      (runes ''fix'', runes ''fix''),
      (runes ''bugfix'', runes ''fix''),
      (runes ''perf'', runes ''perf''),
      (runes ''refactor'', runes ''refactor''),
      (runes ''docs'', runes ''docs''),
      (runes ''doc'', runes ''docs''),
      (runes ''test'', runes ''test''),
      (runes ''tests'', runes ''test''),
      (runes ''build'', runes ''build''),
      (runes ''chore'', runes ''chore''),
      (runes ''ci'', runes ''ci'')]"

definition commitKeywords :: "gostring list" where
  "commitKeywords =
     [runes ''fix'', runes ''feat'', runes ''perf'', runes ''refactor'',
      runes ''docs'', runes ''test'', runes ''build'', runes ''ci'']"

text \<open>
  A \<^verbatim>\<open>range\<close> loop over a Go map visits the entries in an order that the language
  leaves open and that differs from run to run. The order of one loop is an
  argument of the model: a list \<open>order\<close> that enumerates the entries of the map.
\<close>

definition enumerates :: "(gostring \<times> gostring) list \<Rightarrow> bool" where
  "enumerates order = (distinct order \<and> set order = set allowedCommitTypes)"

text \<open>The loop \<^verbatim>\<open>for key, value := range allowedCommitTypes\<close> of normaliseCommitType.\<close>

fun range_HasPrefix :: "(gostring \<times> gostring) list \<Rightarrow> gostring \<Rightarrow> gostring option" where
  "range_HasPrefix [] candidate = None"
| "range_HasPrefix ((key, val) # rest) candidate =
     (if HasPrefix candidate key then Some val else range_HasPrefix rest candidate)"

definition normaliseCommitType ::
  "(rune \<Rightarrow> rune) \<Rightarrow> (gostring \<times> gostring) list \<Rightarrow> gostring \<Rightarrow> gostring" where
  "normaliseCommitType tbl order t =
     (let candidate = Trim (ToLower tbl (TrimSpace t)) (runes ''[]'') in
      if candidate = [] then runes ''chore''
      else (case map_of allowedCommitTypes candidate of
              Some mapped \<Rightarrow> mapped
            | None \<Rightarrow>
                (case range_HasPrefix order candidate of
                   Some val \<Rightarrow> val
                 | None \<Rightarrow> runes ''chore'')))"

text \<open>The loop of detectCommitType over the keywords, in the order of the slice.\<close>

fun detect_loop ::
  "(rune \<Rightarrow> rune) \<Rightarrow> (gostring \<times> gostring) list \<Rightarrow> gostring \<Rightarrow> gostring list \<Rightarrow> gostring" where
  "detect_loop tbl order lower [] = runes ''chore''"
| "detect_loop tbl order lower (candidate # rest) =
     (if Contains lower candidate then normaliseCommitType tbl order candidate
      else detect_loop tbl order lower rest)"

definition detectCommitType ::
  "(rune \<Rightarrow> rune) \<Rightarrow> (gostring \<times> gostring) list \<Rightarrow> gostring \<Rightarrow> gostring" where
  "detectCommitType tbl order raw = detect_loop tbl order (ToLower tbl raw) commitKeywords"

definition sanitizeDescription :: "gostring \<Rightarrow> gostring" where
  "sanitizeDescription s0 =
     (let s = CondenseSpaces (TrimSpace s0) in
      if s = [] then []
      else TrimRight (if length s > 72 then TruncateShorten s 72 else s) (runes ''.''))"

definition sanitizeSummary :: "gostring \<Rightarrow> gostring" where
  "sanitizeSummary s0 =
     (let s = CondenseSpaces (TrimSpace s0) in
      if s = [] then []
      else if length s > 100 then TruncateShorten s 100 else s)"

text \<open>The body of the loop of sanitizeBody, and sanitizeBody.\<close>

definition sanitizeLine :: "gostring \<Rightarrow> gostring" where
  "sanitizeLine line0 =
     (let line = CondenseSpaces line0 in
      if length line > 300 then TruncateShorten line 300 else line)"

definition sanitizeBody :: "gostring \<Rightarrow> gostring \<Rightarrow> gostring" where
  "sanitizeBody body0 summary =
     (let body1 = TrimSpace body0;
          body = (if body1 = [] then summary else body1);
          lines = TrimLines body in
      if length lines = 0 then []
      else Join (map sanitizeLine lines) (runes ''\<newline>''))"

text \<open>
  The pattern \<^verbatim>\<open>^([A-Za-z]+-\d+)\<close>: ASCII letters, a hyphen, ASCII digits, at the
  start of the text. Both repetitions are greedy, and a shorter run of letters is
  followed by a letter, not by the hyphen, so the match, when there is one, takes all
  the leading letters and all the digits after the hyphen.
\<close>

definition is_letter :: "rune \<Rightarrow> bool" where
  "is_letter r = ((65 \<le> r \<and> r \<le> 90) \<or> (97 \<le> r \<and> r \<le> 122))"

definition is_digit :: "rune \<Rightarrow> bool" where
  "is_digit r = (48 \<le> r \<and> r \<le> 57)"

definition ticketPattern :: "gostring \<Rightarrow> gostring option" where
  "ticketPattern s =
     (let letters = takeWhile is_letter s in
      if letters = [] then None
      else (case dropWhile is_letter s of
              [] \<Rightarrow> None
            | h # rest \<Rightarrow>
                (let digits = takeWhile is_digit rest in
                 if h = 45 \<and> digits \<noteq> [] then Some (letters @ [45] @ digits) else None)))"

definition extractTicket :: "gostring \<Rightarrow> gostring" where
  "extractTicket branch0 =
     (let branch1 = CondenseSpaces (TrimSpace branch0) in
      if branch1 = [] then runes ''unknown''
      else (let idx = LastIndex branch1 (runes ''/'');
                branch = (if idx \<noteq> -1 \<and> idx < int (length branch1) - 1
                          then drop (nat (idx + 1)) branch1 else branch1)
            in case ticketPattern branch of Some m \<Rightarrow> m | None \<Rightarrow> branch))"

definition normaliseParts ::
  "(rune \<Rightarrow> rune) \<Rightarrow> (gostring \<times> gostring) list \<Rightarrow> Parts \<Rightarrow> Parts" where
  "normaliseParts tbl order p =
     (let summary = sanitizeSummary (Summary p) in
      \<lparr>CommitType = normaliseCommitType tbl order (CommitType p),
       Description = sanitizeDescription (Description p),
       Summary = summary,
       Body = sanitizeBody (Parts.Body p) summary\<rparr>)"

text \<open>
  ParseParts. \<^verbatim>\<open>json.Unmarshal\<close> belongs to Go's library: the argument \<open>unmarshal\<close>
  gives, for the text between the braces, the decoded Parts, or None when decoding
  reports an error.
\<close>

definition ParseParts ::
  "(rune \<Rightarrow> rune) \<Rightarrow> (gostring \<times> gostring) list \<Rightarrow> (gostring \<Rightarrow> Parts option)
     \<Rightarrow> gostring \<Rightarrow> error + Parts" where
  "ParseParts tbl order unmarshal raw0 =
     (let raw = TrimSpace raw0 in
      if raw = [] then Inl empty_response
      else (let start = Index raw (runes ''{''); end = LastIndex raw (runes ''}'') in
            if start = -1 \<or> end = -1 \<or> start > end then Inl response_missing_JSON_object
            else (case unmarshal (take (nat (end + 1) - nat start) (drop (nat start) raw)) of
                    None \<Rightarrow> Inl unmarshal_error
                  | Some p \<Rightarrow> Inr (normaliseParts tbl order p))))"

definition FallbackParts ::
  "(rune \<Rightarrow> rune) \<Rightarrow> (gostring \<times> gostring) list \<Rightarrow> gostring \<Rightarrow> Parts" where
  "FallbackParts tbl order raw =
     (let clean0 = sanitizeDescription raw;
          clean = (if clean0 = [] then runes ''update project files'' else clean0);
          summary0 = sanitizeSummary raw;
          summary = (if summary0 = [] then TruncateShorten clean 100 else summary0) in
      \<lparr>CommitType = detectCommitType tbl order raw,
       Description = clean,
       Summary = summary,
       Body = sanitizeBody raw summary\<rparr>)"

definition BuildMessage ::
  "(rune \<Rightarrow> rune) \<Rightarrow> (gostring \<times> gostring) list \<Rightarrow> gostring \<Rightarrow> Parts \<Rightarrow> Message" where
  "BuildMessage tbl order branch parts =
     (let ticket = extractTicket branch;
          commitType = normaliseCommitType tbl order (CommitType parts);
          summary0 = sanitizeSummary (Summary parts);
          description0 = sanitizeDescription (Description parts);
          description =
            (if description0 = []
             then (if summary0 \<noteq> [] then summary0 else runes ''update project files'')
             else description0);
          summary = (if summary0 = [] then TruncateShorten description 100 else summary0);
          body = sanitizeBody (Parts.Body parts) summary;
          headline = TrimSpace (Join [ticket, runes ''['' @ commitType @ runes '']'', description]
                                  (runes '' ''))
      in \<lparr>Headline = headline, Body = body\<rparr>)"

section \<open>Package ollama\<close>

record Chunk =
  Response :: gostring
  Done :: bool

text \<open>
  \<^verbatim>\<open>len(s)\<close>, the length of a string in bytes: a rune takes one to four bytes in
  UTF-8 (\<^verbatim>\<open>utf8.RuneLen\<close>).
\<close>

definition RuneLen :: "rune \<Rightarrow> int" where
  "RuneLen r = (if r < 128 then 1 else if r < 2048 then 2 else if r < 65536 then 3 else 4)"

definition len :: "gostring \<Rightarrow> int" where
  "len s = sum_list (map RuneLen s)"

text \<open>
  Generate reads the response body with \<^verbatim>\<open>bufio.NewScanner(resp.Body)\<close>: the split
  function is \<^verbatim>\<open>bufio.ScanLines\<close> and the buffer grows to \<^verbatim>\<open>bufio.MaxScanTokenSize\<close>,
  64 KiB, and no further. The scanner belongs to Go's library; the model below follows
  its documented behaviour on a body that the reader delivers in full.

  A call of \<^verbatim>\<open>sc.Scan()\<close> either delivers the next line as the token, or ends the
  scan. A line is delivered without its line end, \<^verbatim>\<open>\n\<close> or \<^verbatim>\<open>\r\n\<close>. A line and
  its \<^verbatim>\<open>\n\<close> have to fit in the buffer together: when the buffer is full and holds
  no \<^verbatim>\<open>\n\<close>, the scan ends with \<^verbatim>\<open>bufio.ErrTooLong\<close>. After the last \<^verbatim>\<open>\n\<close>, what
  is left is delivered as a last token when it is not empty; when it fills the buffer
  exactly, it is delivered only if the reader reports the end of the body together
  with its last bytes (\<open>eof_with_data\<close>), and the scan ends with the error otherwise.
\<close>

definition MaxScanTokenSize :: int where
  "MaxScanTokenSize = 64 * 1024"

datatype scan = Token gostring | ErrTooLong

definition dropCR :: "gostring \<Rightarrow> gostring" where
  "dropCR line = (if line \<noteq> [] \<and> last line = 13 then butlast line else line)"

text \<open>
  The outcomes of the successive calls of \<^verbatim>\<open>sc.Scan()\<close>, from the pieces of the body
  between its newlines: every piece but the last is a line that ends in \<^verbatim>\<open>\n\<close>. The
  list ends where \<^verbatim>\<open>Scan\<close> returns false: after \<open>ErrTooLong\<close> with that error, and
  at the end of the body with none.
\<close>

fun Scan_pieces :: "bool \<Rightarrow> gostring list \<Rightarrow> scan list" where
  "Scan_pieces eof_with_data [] = []"
| "Scan_pieces eof_with_data [rest] =
     (if rest = [] then []
      else if len rest < MaxScanTokenSize \<or> (len rest = MaxScanTokenSize \<and> eof_with_data)
      then [Token (dropCR rest)]
      else [ErrTooLong])"
| "Scan_pieces eof_with_data (line # next # pieces) =
     (if len line < MaxScanTokenSize
      then Token (dropCR line) # Scan_pieces eof_with_data (next # pieces)
      else [ErrTooLong])"

definition Scan :: "bool \<Rightarrow> gostring \<Rightarrow> scan list" where
  "Scan eof_with_data body = Scan_pieces eof_with_data (Split body 10)"

text \<open>
  The lines of a body as the scanner cuts them when none is too long: the pieces
  between the newlines, each without a final carriage return; an empty piece after the
  last newline is no line.
\<close>

definition body_lines :: "gostring \<Rightarrow> gostring list" where
  "body_lines body =
     (let pieces = Split body 10 in
      map dropCR (if last pieces = [] then butlast pieces else pieces))"

text \<open>
  The read loop of Generate and the value of \<^verbatim>\<open>sc.Err()\<close> after it. \<open>out\<close> is the
  content of the \<^verbatim>\<open>strings.Builder\<close>, and \<open>unmarshal\<close> stands for \<^verbatim>\<open>json.Unmarshal\<close>
  into a Chunk: None when it reports an error, and the line is skipped by
  \<^verbatim>\<open>continue\<close>. After \<^verbatim>\<open>break\<close> the scanner is not called again and has no error.
\<close>

fun scan_loop ::
  "(gostring \<Rightarrow> Chunk option) \<Rightarrow> scan list \<Rightarrow> gostring \<Rightarrow> gostring \<times> scan option" where
  "scan_loop unmarshal [] out = (out, None)"
| "scan_loop unmarshal (ErrTooLong # rest) out = (out, Some ErrTooLong)"
| "scan_loop unmarshal (Token line # rest) out =
     (case unmarshal line of
        None \<Rightarrow> scan_loop unmarshal rest out
      | Some chunk \<Rightarrow>
          (let out' = out @ Response chunk in
           if Done chunk then (out', None) else scan_loop unmarshal rest out'))"

text \<open>
  Generate from the point where the HTTP response has arrived: the status check, the
  read loop, the check of \<^verbatim>\<open>sc.Err()\<close> and the trimmed result.
\<close>

datatype ollama_error = ollama_status int | scanner_error scan

record http_Response =
  StatusCode :: int
  resp_Body :: gostring
  eof_with_data :: bool

definition Generate :: "(gostring \<Rightarrow> Chunk option) \<Rightarrow> http_Response \<Rightarrow> ollama_error + gostring" where
  "Generate unmarshal resp =
     (if StatusCode resp \<ge> 300 then Inl (ollama_status (StatusCode resp))
      else (case scan_loop unmarshal (Scan (eof_with_data resp) (resp_Body resp)) [] of
              (out, Some err) \<Rightarrow> Inl (scanner_error err)
            | (out, None) \<Rightarrow> Inr (TrimSpace out)))"

section \<open>The specification's reading of three functions\<close>

text \<open>
  The specification on the ticket: ``if the name contains a \<^verbatim>\<open>/\<close>, keeps only the
  substring after the last \<^verbatim>\<open>/\<close>'', with no condition on where the \<^verbatim>\<open>/\<close> stands.
\<close>

definition extractTicket_spec :: "gostring \<Rightarrow> gostring" where
  "extractTicket_spec branch0 =
     (let branch1 = CondenseSpaces (TrimSpace branch0) in
      if branch1 = [] then runes ''unknown''
      else (let idx = LastIndex branch1 (runes ''/'');
                branch = (if idx \<noteq> -1 then drop (nat (idx + 1)) branch1 else branch1)
            in case ticketPattern branch of Some m \<Rightarrow> m | None \<Rightarrow> branch))"

text \<open>
  The specification on the fallback commit type: the keyword of the first occurrence,
  in the raw text, of any keyword of the list, canonicalised; \<^verbatim>\<open>chore\<close> when no
  keyword occurs.
\<close>

definition detectCommitType_spec ::
  "(rune \<Rightarrow> rune) \<Rightarrow> (gostring \<times> gostring) list \<Rightarrow> gostring \<Rightarrow> gostring" where
  "detectCommitType_spec tbl order raw =
     (let lower = ToLower tbl raw;
          found = filter (Contains lower) commitKeywords in
      if found = [] then runes ''chore''
      else normaliseCommitType tbl order (arg_min_list (Index lower) found))"

text \<open>
  The specification on the streaming client: the lines of the body are its pieces
  between newlines, and the aggregated string is the concatenation, in arrival order,
  of the \<^verbatim>\<open>response\<close> fields of the lines that decode, up to and including the first
  one whose \<^verbatim>\<open>done\<close> flag is set, or of all of them when none is.
\<close>

definition Generate_spec :: "(gostring \<Rightarrow> Chunk option) \<Rightarrow> gostring \<Rightarrow> gostring" where
  "Generate_spec unmarshal body =
     (let chunks = List.map_filter unmarshal (Split body 10) in
      concat (map Response
        (takeWhile (\<lambda>c. \<not> Done c) chunks @ take 1 (dropWhile (\<lambda>c. \<not> Done c) chunks))))"

section \<open>Facts about the string functions\<close>

lemma HasPrefix_iff: "HasPrefix s p \<longleftrightarrow> prefix p s"
  by (induction s p rule: HasPrefix.induct) auto

lemma Contains_iff: "Contains s sub \<longleftrightarrow> sublist sub s"
proof (induction s)
  case Nil
  then show ?case by (simp add: HasPrefix_iff)
next
  case (Cons c cs)
  then show ?case by (auto simp: HasPrefix_iff sublist_Cons_right)
qed

lemma LastIndex_none: "x \<notin> set s \<Longrightarrow> LastIndex s [x] = - 1"
  by (induction s) (auto simp: Let_def)

lemma LastIndex_range: "- 1 \<le> LastIndex s [x] \<and> LastIndex s [x] < int (length s)"
  by (induction s) (auto simp: Let_def)

lemma LastIndex_append: "x \<notin> set seg \<Longrightarrow> LastIndex (pre @ x # seg) [x] = int (length pre)"
  by (induction pre) (auto simp: Let_def LastIndex_none)

lemma LastIndex_last: "s \<noteq> [] \<Longrightarrow> last s = x \<Longrightarrow> LastIndex s [x] = int (length s) - 1"
  using LastIndex_append [of x "[]" "butlast s"] by (cases s rule: rev_cases) auto

lemma Split_no_sep: "sep \<notin> set s \<Longrightarrow> Split s sep = [s]"
  by (induction s) auto

lemma Split_append: "sep \<notin> set a \<Longrightarrow> Split (a @ sep # b) sep = a # Split b sep"
  by (induction a) auto

lemma Split_Join:
  "ls \<noteq> [] \<Longrightarrow> \<forall>l \<in> set ls. sep \<notin> set l \<Longrightarrow> Split (Join ls [sep]) sep = ls"
proof (induction ls "[sep]" rule: Join.induct)
  case 1
  then show ?case by simp
next
  case (2 l)
  then show ?case by (simp add: Split_no_sep)
next
  case (3 l m ls)
  then show ?case by (simp add: Split_append)
qed

lemma dropWhile_keeps: "x \<in> set s \<Longrightarrow> \<not> P x \<Longrightarrow> x \<in> set (dropWhile P s)"
  by (induction s) auto

lemma TrimSpace_id:
  "s \<noteq> [] \<Longrightarrow> \<not> IsSpace (hd s) \<Longrightarrow> \<not> IsSpace (last s) \<Longrightarrow> TrimSpace s = s"
proof -
  assume a: "s \<noteq> []" "\<not> IsSpace (hd s)" "\<not> IsSpace (last s)"
  then have "dropWhile IsSpace s = s" by (cases s) auto
  moreover from a have "dropWhile IsSpace (rev s) = rev s"
    by (cases s rule: rev_cases) auto
  ultimately show ?thesis by (simp add: TrimSpace_def)
qed

lemma TrimSpace_nonempty: "x \<in> set s \<Longrightarrow> \<not> IsSpace x \<Longrightarrow> TrimSpace s \<noteq> []"
proof -
  assume a: "x \<in> set s" "\<not> IsSpace x"
  then have "x \<in> set (rev (dropWhile IsSpace s))"
    by (simp add: dropWhile_keeps)
  then have "x \<in> set (dropWhile IsSpace (rev (dropWhile IsSpace s)))"
    using a(2) by (rule dropWhile_keeps)
  then have "dropWhile IsSpace (rev (dropWhile IsSpace s)) \<noteq> []"
    by (cases "dropWhile IsSpace (rev (dropWhile IsSpace s))") auto
  then show ?thesis by (simp add: TrimSpace_def)
qed

lemma TrimRight_length: "length (TrimRight s c) \<le> length s"
  using length_dropWhile_le [of _ "rev s"] by (simp add: TrimRight_def)

lemma TrimRight_snoc: "TrimRight s c = t @ [x] \<Longrightarrow> x \<notin> set c"
proof -
  assume "TrimRight s c = t @ [x]"
  then have "dropWhile (\<lambda>r. r \<in> set c) (rev s) = x # rev t"
    by (simp add: TrimRight_def rev_swap)
  then show ?thesis
    using hd_dropWhile [of "\<lambda>r. r \<in> set c" "rev s"] by auto
qed

lemma ReplaceAll_crlf_id: "13 \<notin> set s \<Longrightarrow> ReplaceAll_crlf s = s"
  by (induction s rule: ReplaceAll_crlf.induct) auto

section \<open>Package util: CondenseSpaces and TruncateShorten\<close>

lemma CondenseSpaces_set:
  "x \<in> set (CondenseSpaces s) \<Longrightarrow> x = 32 \<or> (x \<in> set s \<and> \<not> whitespace x)"
proof (induction s arbitrary: x rule: CondenseSpaces.induct)
  case 1
  then show ?case by simp
next
  case (2 c cs)
  then show ?case
    by (auto split: if_splits dest: set_dropWhileD)
qed

lemma CondenseSpaces_no_newline: "10 \<notin> set (CondenseSpaces s)"
  using CondenseSpaces_set [of 10 s] by (auto simp: whitespace_def)

lemma CondenseSpaces_id: "\<forall>x \<in> set s. \<not> whitespace x \<Longrightarrow> CondenseSpaces s = s"
  by (induction s) auto

lemma CondenseSpaces_empty: "CondenseSpaces s = [] \<longleftrightarrow> s = []"
  by (cases s) auto

lemma TruncateShorten_length: "0 \<le> n \<Longrightarrow> int (length (TruncateShorten s n)) \<le> n"
  by (auto simp: TruncateShorten_def RuneCountInString_def ellipsis_def)

lemma TruncateShorten_short: "int (length s) \<le> n \<Longrightarrow> TruncateShorten s n = s"
  by (cases s) (auto simp: TruncateShorten_def RuneCountInString_def)

lemma TruncateShorten_long:
  "0 < n \<Longrightarrow> n < int (length s) \<Longrightarrow> TruncateShorten s n = take (nat (n - 1)) s @ ellipsis"
  by (simp add: TruncateShorten_def RuneCountInString_def)

text \<open>
  Claim C6, as stated for all integers \<open>n\<close>, fails below zero: for \<open>n = -1\<close> the
  result is the empty string, whose rune count 0 is above \<open>n\<close>.
\<close>

theorem TruncateShorten_negative_counterexample:
  "\<not> int (RuneCountInString (TruncateShorten (runes ''abc'') (- 1))) \<le> - 1"
  by (simp add: TruncateShorten_def RuneCountInString_def)

text \<open>
  Claim C6, amended: for every string \<open>s\<close> and every \<open>n\<close> that is not negative, the
  result of TruncateShorten has at most \<open>n\<close> runes; for every \<open>n\<close>, a string of at
  most \<open>n\<close> runes is returned as it is; a string of more than \<open>n\<close> runes, with
  \<open>n\<close> positive, is cut to its first \<open>n - 1\<close> runes followed by one ellipsis rune;
  and for \<open>n\<close> zero or negative the result is the empty string.
\<close>

theorem TruncateShorten_bound:
  "(0 \<le> n \<longrightarrow> int (RuneCountInString (TruncateShorten s n)) \<le> n)
   \<and> (int (RuneCountInString s) \<le> n \<longrightarrow> TruncateShorten s n = s)
   \<and> (0 < n \<and> n < int (RuneCountInString s) \<longrightarrow>
        TruncateShorten s n = take (nat (n - 1)) s @ ellipsis
        \<and> RuneCountInString (take (nat (n - 1)) s) = nat (n - 1)
        \<and> RuneCountInString ellipsis = 1)
   \<and> (n \<le> 0 \<longrightarrow> TruncateShorten s n = [])"
proof -
  have "0 \<le> n \<Longrightarrow> int (RuneCountInString (TruncateShorten s n)) \<le> n"
    using TruncateShorten_length by (simp add: RuneCountInString_def)
  moreover have "int (RuneCountInString s) \<le> n \<Longrightarrow> TruncateShorten s n = s"
    using TruncateShorten_short by (simp add: RuneCountInString_def)
  moreover have "0 < n \<Longrightarrow> n < int (RuneCountInString s) \<Longrightarrow>
      TruncateShorten s n = take (nat (n - 1)) s @ ellipsis"
    using TruncateShorten_long by (simp add: RuneCountInString_def)
  moreover have "0 < n \<Longrightarrow> n < int (RuneCountInString s) \<Longrightarrow>
      RuneCountInString (take (nat (n - 1)) s) = nat (n - 1)"
    by (simp add: RuneCountInString_def)
  moreover have "RuneCountInString ellipsis = 1"
    by (simp add: RuneCountInString_def ellipsis_def)
  moreover have "n \<le> 0 \<Longrightarrow> TruncateShorten s n = []"
    by (simp add: TruncateShorten_def)
  ultimately show ?thesis by blast
qed

theorem TruncateShorten_bound_witness:
  "(0::int) < 4 \<and> 4 < int (RuneCountInString (runes ''abcdef''))
   \<and> TruncateShorten (runes ''abcdef'') 4 = runes ''abc'' @ ellipsis
   \<and> int (RuneCountInString (TruncateShorten (runes ''abcdef'') 4)) \<le> 4
   \<and> int (RuneCountInString (runes ''abc'')) \<le> 5
   \<and> TruncateShorten (runes ''abc'') 5 = runes ''abc''
   \<and> (0::int) \<le> 0 \<and> TruncateShorten (runes ''abc'') 0 = []"
  using TruncateShorten_bound [of 4 "runes ''abcdef''"]
    TruncateShorten_bound [of 5 "runes ''abc''"]
    TruncateShorten_bound [of 0 "runes ''abc''"]
  by (simp add: runes_def RuneCountInString_def)

section \<open>Package commit: sanitizeDescription\<close>

lemma sanitizeDescription_length: "length (sanitizeDescription s) \<le> 72"
proof -
  have "length (TrimRight (TruncateShorten t 72) c) \<le> 72" for t c
    using TrimRight_length [of "TruncateShorten t 72" c] TruncateShorten_length [of 72 t]
    by simp
  moreover have "length t \<le> 72 \<Longrightarrow> length (TrimRight t c) \<le> 72" for t :: gostring and c
    using TrimRight_length [of t c] by simp
  ultimately show ?thesis
    by (simp add: sanitizeDescription_def Let_def)
qed

lemma sanitizeDescription_no_period: "sanitizeDescription s \<noteq> t @ runes ''.''"
proof
  assume a: "sanitizeDescription s = t @ runes ''.''"
  then obtain u where "TrimRight u (runes ''.'') = t @ [46]"
    by (auto simp: sanitizeDescription_def Let_def runes_def split: if_splits)
  then have "46 \<notin> set (runes ''.'')" by (rule TrimRight_snoc)
  then show False by (simp add: runes_def)
qed

text \<open>
  Claim C9: for every string \<open>s\<close>, sanitizeDescription returns at most 72 runes, and
  the result does not end with the period \<^verbatim>\<open>.\<close>: it is no string \<open>t\<close> followed by
  a period.
\<close>

theorem sanitizeDescription_bounded_no_period:
  "RuneCountInString (sanitizeDescription s) \<le> 72
   \<and> (\<forall>t. sanitizeDescription s \<noteq> t @ runes ''.'')"
  using sanitizeDescription_length sanitizeDescription_no_period
  by (simp add: RuneCountInString_def)

section \<open>Package commit: normaliseCommitType\<close>

lemma range_HasPrefix_Some:
  "range_HasPrefix order c = Some v \<Longrightarrow> \<exists>k. (k, v) \<in> set order \<and> HasPrefix c k"
  by (induction order c rule: range_HasPrefix.induct) (auto split: if_splits)

lemma range_HasPrefix_None:
  "range_HasPrefix order c = None \<Longrightarrow> (k, v) \<in> set order \<Longrightarrow> \<not> HasPrefix c k"
  by (induction order c rule: range_HasPrefix.induct) (auto split: if_splits)

lemma allowedCommitTypes_coherent_list:
  "list_all (\<lambda>(k1, v1). list_all (\<lambda>(k2, v2). \<not> prefix k1 k2 \<or> v1 = v2) allowedCommitTypes)
     allowedCommitTypes"
  by code_simp

lemma allowedCommitTypes_coherent:
  "(k1, v1) \<in> set allowedCommitTypes \<Longrightarrow> (k2, v2) \<in> set allowedCommitTypes \<Longrightarrow>
   prefix k1 k2 \<Longrightarrow> v1 = v2"
  using allowedCommitTypes_coherent_list unfolding list_all_iff by fast

lemma range_HasPrefix_order:
  assumes "enumerates o1" "enumerates o2"
  shows "range_HasPrefix o1 c = range_HasPrefix o2 c"
proof (cases "range_HasPrefix o1 c")
  case None
  show ?thesis
  proof (cases "range_HasPrefix o2 c")
    case None
    with \<open>range_HasPrefix o1 c = None\<close> show ?thesis by simp
  next
    case (Some v)
    then obtain k where "(k, v) \<in> set o2" "HasPrefix c k"
      using range_HasPrefix_Some by blast
    with assms have "(k, v) \<in> set o1" by (simp add: enumerates_def)
    with None \<open>HasPrefix c k\<close> show ?thesis
      using range_HasPrefix_None by blast
  qed
next
  case (Some v1)
  then obtain k1 where k1: "(k1, v1) \<in> set o1" "HasPrefix c k1"
    using range_HasPrefix_Some by blast
  show ?thesis
  proof (cases "range_HasPrefix o2 c")
    case None
    from k1 assms have "(k1, v1) \<in> set o2" by (simp add: enumerates_def)
    with None k1 show ?thesis using range_HasPrefix_None by blast
  next
    case (Some v2)
    then obtain k2 where k2: "(k2, v2) \<in> set o2" "HasPrefix c k2"
      using range_HasPrefix_Some by blast
    from k1 k2 assms have m: "(k1, v1) \<in> set allowedCommitTypes" "(k2, v2) \<in> set allowedCommitTypes"
      by (simp_all add: enumerates_def)
    from k1 k2 have "prefix k1 k2 \<or> prefix k2 k1"
      using prefix_same_cases by (auto simp: HasPrefix_iff)
    with m have "v1 = v2"
      using allowedCommitTypes_coherent by blast
    with Some \<open>range_HasPrefix o1 c = Some v1\<close> show ?thesis by simp
  qed
qed

lemma allowedCommitTypes_values:
  "snd ` set allowedCommitTypes =
     set [runes ''feat'', runes ''fix'', runes ''perf'', runes ''refactor'', runes ''docs'',
          runes ''test'', runes ''build'', runes ''chore'', runes ''ci'']"
  by (auto simp: allowedCommitTypes_def)

lemma normaliseCommitType_range:
  assumes "enumerates order"
  shows "normaliseCommitType tbl order t \<in> snd ` set allowedCommitTypes"
proof -
  have "map_of allowedCommitTypes c = Some v \<Longrightarrow> v \<in> snd ` set allowedCommitTypes" for c v
    using map_of_SomeD by force
  moreover have "range_HasPrefix order c = Some v \<Longrightarrow> v \<in> snd ` set allowedCommitTypes" for c v
    using range_HasPrefix_Some [of order c v] assms by (force simp: enumerates_def)
  moreover have "runes ''chore'' \<in> snd ` set allowedCommitTypes"
    by (simp add: allowedCommitTypes_def)
  ultimately show ?thesis
    by (auto simp: normaliseCommitType_def Let_def split: option.splits)
qed

lemma normaliseCommitType_fixed:
  "v \<in> snd ` set allowedCommitTypes \<Longrightarrow> normaliseCommitType tbl order v = v"
  by (auto simp: normaliseCommitType_def runes_def TrimSpace_def IsSpace_def
      ToLower_def ToLower_rune_def Trim_def allowedCommitTypes_def)

lemma normaliseCommitType_default:
  assumes "\<forall>k \<in> set (map fst allowedCommitTypes).
             \<not> HasPrefix (Trim (ToLower tbl (TrimSpace t)) (runes ''[]'')) k"
    and "enumerates order"
  shows "normaliseCommitType tbl order t = runes ''chore''"
proof -
  let ?c = "Trim (ToLower tbl (TrimSpace t)) (runes ''[]'')"
  have "map_of allowedCommitTypes ?c = None"
  proof (cases "map_of allowedCommitTypes ?c")
    case (Some v)
    then have "?c \<in> set (map fst allowedCommitTypes)"
      using map_of_SomeD by force
    with assms(1) have "\<not> HasPrefix ?c ?c" by blast
    then show ?thesis by (simp add: HasPrefix_iff)
  qed simp
  moreover have "range_HasPrefix order ?c = None"
  proof (cases "range_HasPrefix order ?c")
    case (Some v)
    then obtain k where "(k, v) \<in> set order" "HasPrefix ?c k"
      using range_HasPrefix_Some by blast
    with assms show ?thesis by (force simp: enumerates_def)
  qed simp
  ultimately show ?thesis by (simp add: normaliseCommitType_def Let_def)
qed

lemma enumerates_table: "enumerates allowedCommitTypes"
  by (simp add: enumerates_def allowedCommitTypes_def runes_def)

lemma enumerates_rev: "enumerates (rev allowedCommitTypes)"
  using enumerates_table by (simp add: enumerates_def)

text \<open>
  Claim C7: normaliseCommitType returns, for every token and every order in which the
  range loop may visit the table, one of the commit types of the table; it returns
  \<^verbatim>\<open>chore\<close> when no key of the table is a prefix of the cleaned token; and applying
  it to its own result, under any order \<open>order'\<close>, gives that result again.
\<close>

theorem normaliseCommitType_total_idempotent:
  assumes "enumerates order"
  shows "normaliseCommitType tbl order x \<in> snd ` set allowedCommitTypes
    \<and> ((\<forall>k \<in> set (map fst allowedCommitTypes).
           \<not> HasPrefix (Trim (ToLower tbl (TrimSpace x)) (runes ''[]'')) k) \<longrightarrow>
         normaliseCommitType tbl order x = runes ''chore'')
    \<and> normaliseCommitType tbl order' (normaliseCommitType tbl order x)
         = normaliseCommitType tbl order x"
  using assms normaliseCommitType_range [OF assms] normaliseCommitType_fixed
    normaliseCommitType_default
  by blast

theorem normaliseCommitType_total_idempotent_witness:
  "enumerates allowedCommitTypes
   \<and> normaliseCommitType (\<lambda>r. r) allowedCommitTypes (runes '' [Bugfixes] '')
        \<in> snd ` set allowedCommitTypes
   \<and> normaliseCommitType (\<lambda>r. r) (rev allowedCommitTypes)
        (normaliseCommitType (\<lambda>r. r) allowedCommitTypes (runes '' [Bugfixes] ''))
      = normaliseCommitType (\<lambda>r. r) allowedCommitTypes (runes '' [Bugfixes] '')
   \<and> normaliseCommitType (\<lambda>r. r) allowedCommitTypes (runes ''wip'') = runes ''chore''"
proof -
  have h: "\<forall>k \<in> set (map fst allowedCommitTypes).
             \<not> HasPrefix (Trim (ToLower (\<lambda>r. r) (TrimSpace (runes ''wip''))) (runes ''[]'')) k"
    by code_simp
  show ?thesis
    using enumerates_table h
      normaliseCommitType_total_idempotent [OF enumerates_table, of "\<lambda>r. r" "runes '' [Bugfixes] ''"
        "rev allowedCommitTypes"]
      normaliseCommitType_total_idempotent [OF enumerates_table, of "\<lambda>r. r" "runes ''wip''"]
    by blast
qed

text \<open>
  Claim C10: the result of normaliseCommitType does not depend on the order in which
  the range loop visits the table: any two enumerations of the table give the same
  commit type for every token. (A token that starts with two keys starts with
  \<^verbatim>\<open>feat\<close> and \<^verbatim>\<open>feature\<close>, with \<^verbatim>\<open>doc\<close> and \<^verbatim>\<open>docs\<close>, or with \<^verbatim>\<open>test\<close> and
  \<^verbatim>\<open>tests\<close>, and the keys of each pair have the same value; the token \<^verbatim>\<open>f\<close> starts
  with no key.)
\<close>

theorem normaliseCommitType_order_independent:
  assumes "enumerates order1" "enumerates order2"
  shows "normaliseCommitType tbl order1 t = normaliseCommitType tbl order2 t"
  by (simp only: normaliseCommitType_def range_HasPrefix_order [OF assms])

theorem normaliseCommitType_order_independent_witness:
  "enumerates allowedCommitTypes \<and> enumerates (rev allowedCommitTypes)
   \<and> normaliseCommitType (\<lambda>r. r) allowedCommitTypes (runes ''Features'')
      = normaliseCommitType (\<lambda>r. r) (rev allowedCommitTypes) (runes ''Features'')
   \<and> normaliseCommitType (\<lambda>r. r) allowedCommitTypes (runes ''f'')
      = normaliseCommitType (\<lambda>r. r) (rev allowedCommitTypes) (runes ''f'')"
  using enumerates_table enumerates_rev
    normaliseCommitType_order_independent [OF enumerates_table enumerates_rev]
  by simp

section \<open>Package commit: extractTicket\<close>

lemma ticketPattern_match:
  assumes "letters \<noteq> []" "list_all is_letter letters" "digits \<noteq> []" "list_all is_digit digits"
    and "rest = [] \<or> \<not> is_digit (hd rest)"
  shows "ticketPattern (letters @ runes ''-'' @ digits @ rest) = Some (letters @ runes ''-'' @ digits)"
proof -
  have l: "\<forall>x \<in> set letters. is_letter x" and d: "\<forall>x \<in> set digits. is_digit x"
    using assms by (simp_all add: list_all_iff)
  have h: "\<not> is_letter 45" by (simp add: is_letter_def)
  have t: "takeWhile is_letter (letters @ 45 # digits @ rest) = letters"
    using l h by (simp add: takeWhile_append2)
  have dr: "dropWhile is_letter (letters @ 45 # digits @ rest) = 45 # digits @ rest"
    using l h by (simp add: dropWhile_append2)
  have "takeWhile is_digit rest = []"
    using assms(5) by (cases rest) auto
  then have td: "takeWhile is_digit (digits @ rest) = digits"
    using d by (simp add: takeWhile_append2)
  show ?thesis
    using assms(1,3) by (simp add: ticketPattern_def runes_def t dr td)
qed

lemma ticketPattern_Some:
  assumes "ticketPattern seg = Some m"
  shows "\<exists>letters digits rest. seg = letters @ runes ''-'' @ digits @ rest
           \<and> letters \<noteq> [] \<and> list_all is_letter letters
           \<and> digits \<noteq> [] \<and> list_all is_digit digits \<and> m = letters @ runes ''-'' @ digits"
proof -
  let ?l = "takeWhile is_letter seg"
  from assms have l: "?l \<noteq> []"
    by (auto simp: ticketPattern_def Let_def split: if_splits)
  from assms obtain rest where r: "dropWhile is_letter seg = 45 # rest"
    and d: "takeWhile is_digit rest \<noteq> []" and m: "m = ?l @ [45] @ takeWhile is_digit rest"
    by (auto simp: ticketPattern_def Let_def split: if_splits list.splits)
  have "seg = ?l @ dropWhile is_letter seg" by simp
  also have "\<dots> = ?l @ 45 # takeWhile is_digit rest @ dropWhile is_digit rest"
    using r by simp
  finally have "seg = ?l @ runes ''-'' @ takeWhile is_digit rest @ dropWhile is_digit rest"
    by (simp add: runes_def)
  moreover have "list_all is_letter ?l" "list_all is_digit (takeWhile is_digit rest)"
    by (auto simp: list_all_iff dest: set_takeWhileD)
  ultimately have "seg = ?l @ runes ''-'' @ takeWhile is_digit rest @ dropWhile is_digit rest
      \<and> ?l \<noteq> [] \<and> list_all is_letter ?l
      \<and> takeWhile is_digit rest \<noteq> [] \<and> list_all is_digit (takeWhile is_digit rest)
      \<and> m = ?l @ runes ''-'' @ takeWhile is_digit rest"
    using l d m by (simp add: runes_def)
  then show ?thesis by blast
qed

lemma extractTicket_empty:
  "CondenseSpaces (TrimSpace branch) = [] \<Longrightarrow> extractTicket branch = runes ''unknown''"
  by (simp add: extractTicket_def)

lemma extractTicket_segment:
  assumes "CondenseSpaces (TrimSpace branch) = pre @ runes ''/'' @ seg" "seg \<noteq> []" "47 \<notin> set seg"
  shows "extractTicket branch = (case ticketPattern seg of Some m \<Rightarrow> m | None \<Rightarrow> seg)"
proof -
  have "LastIndex (pre @ 47 # seg) [47] = int (length pre)"
    using assms(3) by (rule LastIndex_append)
  moreover have n: "nat (int (length pre) + 1) = length pre + 1" by simp
  have "drop (nat (int (length pre) + 1)) (pre @ 47 # seg) = seg"
    unfolding n by simp
  ultimately show ?thesis
    using assms(1,2)
    by (cases "ticketPattern seg") (simp_all add: extractTicket_def runes_def Let_def del: drop_append)
qed

lemma extractTicket_whole:
  assumes "CondenseSpaces (TrimSpace branch) = b" "b \<noteq> []" "47 \<notin> set b \<or> last b = 47"
  shows "extractTicket branch = (case ticketPattern b of Some m \<Rightarrow> m | None \<Rightarrow> b)"
proof -
  have "LastIndex b [47] = - 1 \<or> LastIndex b [47] = int (length b) - 1"
    using assms(2,3) LastIndex_none [of 47 b] LastIndex_last [of b 47] by blast
  then show ?thesis
    using assms(1,2)
    by (cases "ticketPattern b") (auto simp: extractTicket_def runes_def Let_def)
qed

lemma extractTicket_nonempty: "extractTicket branch \<noteq> []"
proof -
  let ?b = "CondenseSpaces (TrimSpace branch)"
  let ?idx = "LastIndex ?b (runes ''/'')"
  let ?seg = "if ?idx \<noteq> - 1 \<and> ?idx < int (length ?b) - 1 then drop (nat (?idx + 1)) ?b else ?b"
  have m: "ticketPattern s = Some m \<Longrightarrow> m \<noteq> []" for s m
    using ticketPattern_Some [of s m] by auto
  show ?thesis
  proof (cases "?b = []")
    case True
    then show ?thesis by (simp add: extractTicket_def runes_def)
  next
    case False
    then have "0 < length ?b" by simp
    then have "?idx < int (length ?b) - 1 \<Longrightarrow> nat (?idx + 1) < length ?b"
      by arith
    then have "?idx < int (length ?b) - 1 \<Longrightarrow> drop (nat (?idx + 1)) ?b \<noteq> []"
      by simp
    then have "?seg \<noteq> []" using False by presburger
    moreover have "extractTicket branch = (case ticketPattern ?seg of Some m \<Rightarrow> m | None \<Rightarrow> ?seg)"
      using False by (simp add: extractTicket_def Let_def)
    ultimately show ?thesis
      using m [of ?seg] by (cases "ticketPattern ?seg") simp_all
  qed
qed

text \<open>
  Claim C5, as stated, fails on a branch that ends in \<^verbatim>\<open>/\<close>: stripping up to the last
  \<^verbatim>\<open>/\<close> leaves the empty segment, while extractTicket keeps the whole branch.
\<close>

theorem extractTicket_trailing_slash_counterexample:
  "extractTicket (runes ''feature/'') = runes ''feature/''
   \<and> extractTicket_spec (runes ''feature/'') = []"
  by code_simp

text \<open>
  Claim C5, amended: extractTicket maps \<^verbatim>\<open>feature/TES-123-login-audit\<close> to \<^verbatim>\<open>TES-123\<close>,
  \<^verbatim>\<open>main\<close> to \<^verbatim>\<open>main\<close> and the empty string to \<^verbatim>\<open>unknown\<close>. On the trimmed and
  condensed branch: an empty one gives \<^verbatim>\<open>unknown\<close>; when a \<^verbatim>\<open>/\<close> occurs and the last
  one is not the final rune, the segment after it is kept; a branch without \<^verbatim>\<open>/\<close>, or
  one ending in \<^verbatim>\<open>/\<close>, is kept whole. Of what is kept, the result is the leading
  ticket token (letters, a hyphen, digits) when it starts with one, and all of it
  otherwise.
\<close>

theorem extractTicket_rule:
  "extractTicket (runes ''feature/TES-123-login-audit'') = runes ''TES-123''
   \<and> extractTicket (runes ''main'') = runes ''main''
   \<and> extractTicket (runes '''') = runes ''unknown''
   \<and> (CondenseSpaces (TrimSpace branch) = [] \<longrightarrow> extractTicket branch = runes ''unknown'')
   \<and> (CondenseSpaces (TrimSpace branch) = pre @ runes ''/'' @ seg \<and> seg \<noteq> [] \<and> 47 \<notin> set seg \<longrightarrow>
        extractTicket branch = (case ticketPattern seg of Some m \<Rightarrow> m | None \<Rightarrow> seg))
   \<and> (CondenseSpaces (TrimSpace branch) = b \<and> b \<noteq> [] \<and> (47 \<notin> set b \<or> last b = 47) \<longrightarrow>
        extractTicket branch = (case ticketPattern b of Some m \<Rightarrow> m | None \<Rightarrow> b))
   \<and> (letters \<noteq> [] \<and> list_all is_letter letters \<and> digits \<noteq> [] \<and> list_all is_digit digits
        \<and> (rest = [] \<or> \<not> is_digit (hd rest)) \<longrightarrow>
        ticketPattern (letters @ runes ''-'' @ digits @ rest) = Some (letters @ runes ''-'' @ digits))
   \<and> (ticketPattern s = Some m \<longrightarrow>
        (\<exists>ls ds r. s = ls @ runes ''-'' @ ds @ r \<and> ls \<noteq> [] \<and> list_all is_letter ls
           \<and> ds \<noteq> [] \<and> list_all is_digit ds \<and> m = ls @ runes ''-'' @ ds))"
proof (intro conjI impI)
  show "extractTicket (runes ''feature/TES-123-login-audit'') = runes ''TES-123''"
    by code_simp
  show "extractTicket (runes ''main'') = runes ''main''"
    by code_simp
  show "extractTicket (runes '''') = runes ''unknown''"
    by code_simp
  show "extractTicket branch = runes ''unknown''" if "CondenseSpaces (TrimSpace branch) = []"
    using that by (rule extractTicket_empty)
  show "extractTicket branch = (case ticketPattern seg of Some m \<Rightarrow> m | None \<Rightarrow> seg)"
    if "CondenseSpaces (TrimSpace branch) = pre @ runes ''/'' @ seg \<and> seg \<noteq> [] \<and> 47 \<notin> set seg"
    using that extractTicket_segment [of branch pre seg] by simp
  show "extractTicket branch = (case ticketPattern b of Some m \<Rightarrow> m | None \<Rightarrow> b)"
    if "CondenseSpaces (TrimSpace branch) = b \<and> b \<noteq> [] \<and> (47 \<notin> set b \<or> last b = 47)"
    using that extractTicket_whole [of branch b] by simp
  show "ticketPattern (letters @ runes ''-'' @ digits @ rest) = Some (letters @ runes ''-'' @ digits)"
    if "letters \<noteq> [] \<and> list_all is_letter letters \<and> digits \<noteq> [] \<and> list_all is_digit digits
        \<and> (rest = [] \<or> \<not> is_digit (hd rest))"
    using that ticketPattern_match [of letters digits rest] by simp
  show "\<exists>ls ds r. s = ls @ runes ''-'' @ ds @ r \<and> ls \<noteq> [] \<and> list_all is_letter ls
           \<and> ds \<noteq> [] \<and> list_all is_digit ds \<and> m = ls @ runes ''-'' @ ds"
    if "ticketPattern s = Some m"
    using that by (rule ticketPattern_Some)
qed

theorem extractTicket_rule_witness:
  "CondenseSpaces (TrimSpace (runes '' feature/TES-123-login-audit '')) = runes ''feature'' @ runes ''/'' @ runes ''TES-123-login-audit''
   \<and> ticketPattern (runes ''TES'' @ runes ''-'' @ runes ''123'' @ runes ''-login-audit'') = Some (runes ''TES'' @ runes ''-'' @ runes ''123'')
   \<and> extractTicket (runes '' feature/TES-123-login-audit '') = runes ''TES-123''
   \<and> CondenseSpaces (TrimSpace (runes ''feature/'')) = runes ''feature/''
   \<and> extractTicket (runes ''feature/'') = runes ''feature/''
   \<and> CondenseSpaces (TrimSpace (runes ''  '')) = []
   \<and> extractTicket (runes ''  '') = runes ''unknown''"
proof -
  have a: "CondenseSpaces (TrimSpace (runes '' feature/TES-123-login-audit '')) = runes ''feature'' @ runes ''/'' @ runes ''TES-123-login-audit''"
    by code_simp
  have a2: "runes ''TES-123-login-audit'' \<noteq> [] \<and> 47 \<notin> set (runes ''TES-123-login-audit'')"
    by code_simp
  have b: "runes ''TES'' \<noteq> [] \<and> list_all is_letter (runes ''TES'') \<and> runes ''123'' \<noteq> [] \<and> list_all is_digit (runes ''123'')
         \<and> (runes ''-login-audit'' = [] \<or> \<not> is_digit (hd (runes ''-login-audit'')))"
    by code_simp
  have c: "CondenseSpaces (TrimSpace (runes ''feature/'')) = runes ''feature/'' \<and> runes ''feature/'' \<noteq> []
         \<and> (47 \<notin> set (runes ''feature/'') \<or> last (runes ''feature/'') = 47)"
    by code_simp
  have c2: "ticketPattern (runes ''feature/'') = None" by code_simp
  have d: "CondenseSpaces (TrimSpace (runes ''  '')) = []" by code_simp
  have e: "runes ''TES-123-login-audit'' = runes ''TES'' @ runes ''-'' @ runes ''123'' @ runes ''-login-audit''"
    by (simp add: runes_def)
  have f: "runes ''TES'' @ runes ''-'' @ runes ''123'' = runes ''TES-123''"
    by (simp add: runes_def)
  note r = extractTicket_rule [of "runes '' feature/TES-123-login-audit ''" "runes ''feature''"
      "runes ''TES-123-login-audit''" _ "runes ''TES''" "runes ''123''" "runes ''-login-audit''"]
  note r2 = extractTicket_rule [of "runes ''feature/''" _ _ "runes ''feature/''"]
  note r3 = extractTicket_rule [of "runes ''  ''"]
  from r a a2 b e f have "ticketPattern (runes ''TES'' @ runes ''-'' @ runes ''123'' @ runes ''-login-audit'') = Some (runes ''TES'' @ runes ''-'' @ runes ''123'')"
    and "extractTicket (runes '' feature/TES-123-login-audit '') = runes ''TES-123''"
    by simp_all
  moreover from r2 c c2 have "extractTicket (runes ''feature/'') = runes ''feature/''"
    by simp
  moreover from r3 d have "extractTicket (runes ''  '') = runes ''unknown''"
    by simp
  ultimately show ?thesis using a c d by simp
qed


section \<open>Package commit: BuildMessage\<close>

lemma allowedCommitTypes_value_nonempty: "v \<in> snd ` set allowedCommitTypes \<Longrightarrow> v \<noteq> []"
  by (auto simp: allowedCommitTypes_def runes_def)

lemma BuildMessage_Headline:
  "Headline (BuildMessage tbl order branch parts) =
     TrimSpace (Join [extractTicket branch,
                      runes ''['' @ normaliseCommitType tbl order (CommitType parts) @ runes '']'',
                      if sanitizeDescription (Description parts) = []
                      then (if sanitizeSummary (Summary parts) \<noteq> []
                            then sanitizeSummary (Summary parts) else runes ''update project files'')
                      else sanitizeDescription (Description parts)] (runes '' ''))"
  by (simp add: BuildMessage_def Let_def del: Join.simps)

text \<open>
  Claim C4: for every branch and every Parts value, whatever order the range loop of
  normaliseCommitType takes, the Headline of BuildMessage is the trimmed text
  \<^verbatim>\<open><ticket> [<commitType>] <description>\<close> with one space between the three tokens,
  and it is not empty; the ticket, the commit type and the description that enter it
  (the sanitized description, else the sanitized summary, else
  \<^verbatim>\<open>update project files\<close>) are not empty either. BuildMessage is a total function:
  it has no error result.
\<close>

theorem BuildMessage_headline:
  assumes "enumerates order"
  shows "(let ticket = extractTicket branch;
              commitType = normaliseCommitType tbl order (CommitType parts);
              description =
                (if sanitizeDescription (Description parts) \<noteq> []
                 then sanitizeDescription (Description parts)
                 else if sanitizeSummary (Summary parts) \<noteq> []
                 then sanitizeSummary (Summary parts)
                 else runes ''update project files'')
          in Headline (BuildMessage tbl order branch parts)
               = TrimSpace (ticket @ runes '' '' @ runes ''['' @ commitType @ runes '']''
                              @ runes '' '' @ description)
             \<and> Headline (BuildMessage tbl order branch parts) \<noteq> []
             \<and> ticket \<noteq> [] \<and> commitType \<noteq> [] \<and> description \<noteq> [])"
proof -
  let ?ticket = "extractTicket branch"
  let ?ct = "normaliseCommitType tbl order (CommitType parts)"
  let ?d = "if sanitizeDescription (Description parts) \<noteq> []
            then sanitizeDescription (Description parts)
            else if sanitizeSummary (Summary parts) \<noteq> []
            then sanitizeSummary (Summary parts)
            else runes ''update project files''"
  let ?line = "?ticket @ runes '' '' @ runes ''['' @ ?ct @ runes '']'' @ runes '' '' @ ?d"
  have h: "Headline (BuildMessage tbl order branch parts) = TrimSpace ?line"
    by (simp add: BuildMessage_Headline)
  have "91 \<in> set ?line" by (simp add: runes_def)
  moreover have "\<not> IsSpace 91" by (simp add: IsSpace_def)
  ultimately have n: "TrimSpace ?line \<noteq> []" by (rule TrimSpace_nonempty)
  have t: "?ticket \<noteq> []" by (rule extractTicket_nonempty)
  have c: "?ct \<noteq> []"
    using normaliseCommitType_range [OF assms] allowedCommitTypes_value_nonempty by blast
  have d: "?d \<noteq> []" by (simp add: runes_def)
  show ?thesis
    unfolding Let_def using h n t c d by simp
qed

theorem BuildMessage_headline_witness:
  "enumerates allowedCommitTypes
   \<and> Headline (BuildMessage (\<lambda>r. r) allowedCommitTypes (runes ''feature/TES-123-login'')
       \<lparr>CommitType = runes ''feat'', Description = runes ''add login audit hook'',
        Summary = runes ''logs auth events'', Body = runes ''adds publisher''\<rparr>)
     = runes ''TES-123 [feat] add login audit hook''
   \<and> Headline (BuildMessage (\<lambda>r. r) allowedCommitTypes (runes ''main'')
       \<lparr>CommitType = [], Description = runes ''...'', Summary = [], Body = []\<rparr>)
     = runes ''main [chore] update project files''"
proof -
  have a: "TrimSpace (extractTicket (runes ''feature/TES-123-login'') @ runes '' '' @ runes ''[''
      @ normaliseCommitType (\<lambda>r. r) allowedCommitTypes (runes ''feat'') @ runes '']'' @ runes '' ''
      @ sanitizeDescription (runes ''add login audit hook'')) = runes ''TES-123 [feat] add login audit hook''"
    by code_simp
  have b: "sanitizeDescription (runes ''add login audit hook'') \<noteq> []"
    by code_simp
  have c: "sanitizeDescription (runes ''...'') = [] \<and> sanitizeSummary [] = []"
    by code_simp
  have d: "TrimSpace (extractTicket (runes ''main'') @ runes '' '' @ runes ''[''
      @ normaliseCommitType (\<lambda>r. r) allowedCommitTypes [] @ runes '']'' @ runes '' ''
      @ runes ''update project files'') = runes ''main [chore] update project files''"
    by code_simp
  show ?thesis
    using enumerates_table a b c d
      BuildMessage_headline [OF enumerates_table, of "runes ''feature/TES-123-login''" "\<lambda>r. r"
        "\<lparr>CommitType = runes ''feat'', Description = runes ''add login audit hook'',
          Summary = runes ''logs auth events'', Body = runes ''adds publisher''\<rparr>"]
      BuildMessage_headline [OF enumerates_table, of "runes ''main''" "\<lambda>r. r"
        "\<lparr>CommitType = [], Description = runes ''...'', Summary = [], Body = []\<rparr>"]
    by (simp add: Let_def)
qed


section \<open>Package commit: detectCommitType\<close>

lemma detect_loop_none:
  "\<forall>k \<in> set ks. \<not> Contains lower k \<Longrightarrow> detect_loop tbl order lower ks = runes ''chore''"
  by (induction ks) auto

lemma detect_loop_first:
  "i < length ks \<Longrightarrow> Contains lower (ks ! i) \<Longrightarrow> \<forall>k \<in> set (take i ks). \<not> Contains lower k \<Longrightarrow>
   detect_loop tbl order lower ks = normaliseCommitType tbl order (ks ! i)"
proof (induction ks arbitrary: i)
  case Nil
  then show ?case by simp
next
  case (Cons k ks)
  then show ?case by (cases i) auto
qed

lemma commitKeywords_values: "k \<in> set commitKeywords \<Longrightarrow> k \<in> snd ` set allowedCommitTypes"
  by (auto simp: commitKeywords_def allowedCommitTypes_def)

text \<open>
  Claim C8, as stated, fails when a keyword later in the list occurs earlier in the
  text: in \<^verbatim>\<open>docs: fix typo\<close> the first occurrence of a keyword is \<^verbatim>\<open>docs\<close>, and
  detectCommitType answers \<^verbatim>\<open>fix\<close>.
\<close>

theorem detectCommitType_position_counterexample:
  "detectCommitType (\<lambda>r. r) allowedCommitTypes (runes ''docs: fix typo'') = runes ''fix''
   \<and> detectCommitType_spec (\<lambda>r. r) allowedCommitTypes (runes ''docs: fix typo'') = runes ''docs''"
  by code_simp

text \<open>
  Claim C8, amended: the commit type of the fallback extractor is the
  canonicalisation, which is the keyword itself, of the first keyword in the order of
  the list \<^verbatim>\<open>fix, feat, perf, refactor, docs, test, build, ci\<close> that occurs anywhere
  in the lower-cased raw text; when no keyword occurs it is \<^verbatim>\<open>chore\<close>.
\<close>

theorem detectCommitType_first_listed:
  "((\<forall>k \<in> set commitKeywords. \<not> sublist k (ToLower tbl raw)) \<longrightarrow>
      detectCommitType tbl order raw = runes ''chore'')
   \<and> (i < length commitKeywords \<and> sublist (commitKeywords ! i) (ToLower tbl raw)
        \<and> (\<forall>k \<in> set (take i commitKeywords). \<not> sublist k (ToLower tbl raw)) \<longrightarrow>
      detectCommitType tbl order raw = normaliseCommitType tbl order (commitKeywords ! i)
      \<and> normaliseCommitType tbl order (commitKeywords ! i) = commitKeywords ! i)
   \<and> CommitType (FallbackParts tbl order raw) = detectCommitType tbl order raw"
proof (intro conjI impI)
  show "detectCommitType tbl order raw = runes ''chore''"
    if "\<forall>k \<in> set commitKeywords. \<not> sublist k (ToLower tbl raw)"
    using that detect_loop_none [of commitKeywords "ToLower tbl raw"]
    by (simp add: detectCommitType_def Contains_iff)
  show "detectCommitType tbl order raw = normaliseCommitType tbl order (commitKeywords ! i)"
    if "i < length commitKeywords \<and> sublist (commitKeywords ! i) (ToLower tbl raw)
        \<and> (\<forall>k \<in> set (take i commitKeywords). \<not> sublist k (ToLower tbl raw))"
    using that detect_loop_first [of i commitKeywords "ToLower tbl raw"]
    by (simp add: detectCommitType_def Contains_iff)
  show "normaliseCommitType tbl order (commitKeywords ! i) = commitKeywords ! i"
    if "i < length commitKeywords \<and> sublist (commitKeywords ! i) (ToLower tbl raw)
        \<and> (\<forall>k \<in> set (take i commitKeywords). \<not> sublist k (ToLower tbl raw))"
    using that commitKeywords_values [of "commitKeywords ! i"] normaliseCommitType_fixed
    by simp
  show "CommitType (FallbackParts tbl order raw) = detectCommitType tbl order raw"
    by (simp add: FallbackParts_def Let_def)
qed

theorem detectCommitType_first_listed_witness:
  "detectCommitType (\<lambda>r. r) allowedCommitTypes (runes ''Docs: Fix typo'') = runes ''fix''
   \<and> detectCommitType (\<lambda>r. r) allowedCommitTypes (runes ''Update the DOCS'') = runes ''docs''
   \<and> detectCommitType (\<lambda>r. r) allowedCommitTypes (runes ''hello world'') = runes ''chore''"
proof -
  have a: "(0::nat) < length commitKeywords" "commitKeywords ! 0 = runes ''fix''"
      "sublist (runes ''fix'') (ToLower (\<lambda>r. r) (runes ''Docs: Fix typo''))"
    by (simp_all add: commitKeywords_def Contains_iff [symmetric] ToLower_def ToLower_rune_def runes_def)
  have b: "(4::nat) < length commitKeywords" "commitKeywords ! 4 = runes ''docs''"
      "sublist (runes ''docs'') (ToLower (\<lambda>r. r) (runes ''Update the DOCS''))"
    by (simp_all add: commitKeywords_def Contains_iff [symmetric] ToLower_def ToLower_rune_def runes_def)
  have b2: "\<forall>k \<in> set (take 4 commitKeywords). \<not> sublist k (ToLower (\<lambda>r. r) (runes ''Update the DOCS''))"
    by (simp add: commitKeywords_def Contains_iff [symmetric] ToLower_def ToLower_rune_def runes_def)
  have c: "\<forall>k \<in> set commitKeywords. \<not> sublist k (ToLower (\<lambda>r. r) (runes ''hello world''))"
    by (simp add: commitKeywords_def Contains_iff [symmetric] ToLower_def ToLower_rune_def runes_def)
  have "detectCommitType (\<lambda>r. r) allowedCommitTypes (runes ''Docs: Fix typo'') = runes ''fix''"
    using a detectCommitType_first_listed [of "\<lambda>r. r" "runes ''Docs: Fix typo''" allowedCommitTypes 0]
    by simp
  moreover have "detectCommitType (\<lambda>r. r) allowedCommitTypes (runes ''Update the DOCS'') = runes ''docs''"
    using b b2 detectCommitType_first_listed [of "\<lambda>r. r" "runes ''Update the DOCS''" allowedCommitTypes 4]
    by simp
  moreover have "detectCommitType (\<lambda>r. r) allowedCommitTypes (runes ''hello world'') = runes ''chore''"
    using c detectCommitType_first_listed [of "\<lambda>r. r" "runes ''hello world''" allowedCommitTypes]
    by blast
  ultimately show ?thesis by simp
qed


section \<open>Package commit: ParseParts\<close>

text \<open>
  In the runs of ParseParts below, \<^verbatim>\<open>json.Unmarshal\<close> is \<open>map_of\<close> on a list that
  pairs a JSON text with the Parts that Go decodes from it; any other text is an
  error. In a JSON text the runes 92, 110 are the escape \<^verbatim>\<open>\n\<close>, decoded to the
  newline 10.
\<close>

text \<open>
  Claim C1, as stated, fails: ParseParts has no error for a missing description. An
  object whose description is empty is accepted, and the Parts returned has the empty
  Description.
\<close>

theorem ParseParts_empty_description_counterexample:
  \<open>ParseParts (\<lambda>r. r) allowedCommitTypes
     (map_of [(runes ''{"commit_type":"fix","description":""}'',
               \<lparr>CommitType = runes ''fix'', Description = [], Summary = [], Body = []\<rparr>)])
     (runes ''{"commit_type":"fix","description":""}'')
   = Inr \<lparr>CommitType = runes ''fix'', Description = [], Summary = [], Body = []\<rparr>\<close>
  by code_simp

text \<open>
  Claim C1, amended: ParseParts fails exactly when the trimmed input is empty, when
  \<^verbatim>\<open>{\<close> or \<^verbatim>\<open>}\<close> is absent or the first \<^verbatim>\<open>{\<close> comes after the last \<^verbatim>\<open>}\<close>, or
  when the text from the first \<^verbatim>\<open>{\<close> to the last \<^verbatim>\<open>}\<close> does not decode. Whenever that
  text decodes to \<open>p\<close>, ParseParts returns the normalised \<open>p\<close>, whose Description is
  the sanitized description of \<open>p\<close>, empty or not.
\<close>

theorem ParseParts_outcomes:
  "(let raw' = TrimSpace raw;
        start = Index raw' (runes ''{'');
        end = LastIndex raw' (runes ''}'');
        object = take (nat (end + 1) - nat start) (drop (nat start) raw')
    in ((\<exists>e. ParseParts tbl order unmarshal raw = Inl e) \<longleftrightarrow>
          (raw' = [] \<or> start = - 1 \<or> end = - 1 \<or> start > end \<or> unmarshal object = None))
       \<and> (raw' \<noteq> [] \<and> start \<noteq> - 1 \<and> end \<noteq> - 1 \<and> start \<le> end \<and> unmarshal object = Some p \<longrightarrow>
            ParseParts tbl order unmarshal raw = Inr (normaliseParts tbl order p)
            \<and> Description (normaliseParts tbl order p) = sanitizeDescription (Description p)))"
  by (auto simp: ParseParts_def Let_def normaliseParts_def split: option.splits)

theorem ParseParts_outcomes_witness:
  \<open>ParseParts (\<lambda>r. r) allowedCommitTypes
     (map_of [(runes ''{"commit_type":"Feature","description":"...","summary":"tidy the parser"}'',
               \<lparr>CommitType = runes ''Feature'', Description = runes ''...'',
                Summary = runes ''tidy the parser'', Body = []\<rparr>)])
     (runes ''Sure: {"commit_type":"Feature","description":"...","summary":"tidy the parser"} '')
   = Inr \<lparr>CommitType = runes ''feat'', Description = [],
          Summary = runes ''tidy the parser'', Body = runes ''tidy the parser''\<rparr>\<close>
proof -
  let ?doc = \<open>runes ''{"commit_type":"Feature","description":"...","summary":"tidy the parser"}''\<close>
  let ?p = "\<lparr>CommitType = runes ''Feature'', Description = runes ''...'',
             Summary = runes ''tidy the parser'', Body = []\<rparr>"
  let ?raw = \<open>runes ''Sure: {"commit_type":"Feature","description":"...","summary":"tidy the parser"} ''\<close>
  have h: "TrimSpace ?raw \<noteq> []
      \<and> Index (TrimSpace ?raw) (runes ''{'') \<noteq> - 1
      \<and> LastIndex (TrimSpace ?raw) (runes ''}'') \<noteq> - 1
      \<and> Index (TrimSpace ?raw) (runes ''{'') \<le> LastIndex (TrimSpace ?raw) (runes ''}'')
      \<and> map_of [(?doc, ?p)]
           (take (nat (LastIndex (TrimSpace ?raw) (runes ''}'') + 1)
                   - nat (Index (TrimSpace ?raw) (runes ''{'')))
              (drop (nat (Index (TrimSpace ?raw) (runes ''{''))) (TrimSpace ?raw))) = Some ?p"
    by code_simp
  have n: "normaliseParts (\<lambda>r. r) allowedCommitTypes ?p
      = \<lparr>CommitType = runes ''feat'', Description = [],
          Summary = runes ''tidy the parser'', Body = runes ''tidy the parser''\<rparr>"
    by code_simp
  show ?thesis
    using h n ParseParts_outcomes [of ?raw "\<lambda>r. r" allowedCommitTypes "map_of [(?doc, ?p)]" ?p]
    by (simp add: Let_def)
qed

lemma sanitizeLine_length: "length (sanitizeLine l) \<le> 300"
  using TruncateShorten_length [of 300 "CondenseSpaces l"]
  by (simp add: sanitizeLine_def Let_def)

lemma sanitizeLine_no_newline: "10 \<notin> set (sanitizeLine l)"
proof -
  have "10 \<notin> set (TruncateShorten (CondenseSpaces l) 300)"
    using CondenseSpaces_no_newline [of l]
    by (auto simp: TruncateShorten_def ellipsis_def dest: in_set_takeD)
  then show ?thesis
    using CondenseSpaces_no_newline [of l] by (simp add: sanitizeLine_def Let_def)
qed

lemma sanitizeBody_lines:
  "line \<in> set (Split (sanitizeBody body summary) 10) \<Longrightarrow> length line \<le> 300"
proof -
  assume a: "line \<in> set (Split (sanitizeBody body summary) 10)"
  let ?ls = "TrimLines (if TrimSpace body = [] then summary else TrimSpace body)"
  show ?thesis
  proof (cases "?ls = []")
    case True
    then have "sanitizeBody body summary = []"
      by (simp add: sanitizeBody_def Let_def)
    with a show ?thesis by simp
  next
    case False
    then have "sanitizeBody body summary = Join (map sanitizeLine ?ls) [10]"
      by (simp add: sanitizeBody_def Let_def runes_def)
    moreover have "Split (Join (map sanitizeLine ?ls) [10]) 10 = map sanitizeLine ?ls"
      using False by (intro Split_Join) (auto simp: sanitizeLine_no_newline)
    ultimately have "line \<in> set (map sanitizeLine ?ls)" using a by simp
    then show ?thesis using sanitizeLine_length by auto
  qed
qed

text \<open>
  Claim C2, as stated, fails: sanitizeBody truncates each line and joins the lines
  without a further cut. Two lines of 200 runes give a Body of 401 runes.
\<close>

theorem ParseParts_joined_body_counterexample:
  \<open>ParseParts (\<lambda>r. r) allowedCommitTypes
    (map_of [(runes ''{"description":"add audit log","body":"'' @ replicate 200 97 @ [92, 110]
                @ replicate 200 98 @ runes ''"}'',
              \<lparr>CommitType = [], Description = runes ''add audit log'', Summary = [],
               Body = replicate 200 97 @ [10] @ replicate 200 98\<rparr>)])
    (runes ''{"description":"add audit log","body":"'' @ replicate 200 97 @ [92, 110]
       @ replicate 200 98 @ runes ''"}'')
   = Inr \<lparr>CommitType = runes ''chore'', Description = runes ''add audit log'', Summary = [],
          Body = replicate 200 97 @ [10] @ replicate 200 98\<rparr>
   \<and> RuneCountInString (replicate 200 97 @ [10] @ replicate 200 98) = 401\<close>
  by code_simp

text \<open>
  Claim C2, amended: for every raw input that ParseParts accepts, each line of the
  Body of the returned Parts (the Body split at newlines) has at most 300 runes.
\<close>

theorem ParseParts_body_lines:
  assumes "ParseParts tbl order unmarshal raw = Inr p"
  shows "\<forall>line \<in> set (Split (Parts.Body p) 10). RuneCountInString line \<le> 300"
proof -
  from assms obtain q where "p = normaliseParts tbl order q"
    by (auto simp: ParseParts_def Let_def split: if_splits option.splits)
  then have "Parts.Body p = sanitizeBody (Parts.Body q) (sanitizeSummary (Summary q))"
    by (simp add: normaliseParts_def Let_def)
  then show ?thesis
    using sanitizeBody_lines by (simp add: RuneCountInString_def)
qed

theorem ParseParts_body_lines_witness:
  \<open>ParseParts (\<lambda>r. r) allowedCommitTypes
     (map_of [(runes ''{"description":"add audit log","body":"intro'' @ [92, 110, 92, 110, 92, 110]
                 @ replicate 400 99 @ runes ''"}'',
               \<lparr>CommitType = [], Description = runes ''add audit log'', Summary = [],
                Body = runes ''intro'' @ [10, 10, 10] @ replicate 400 99\<rparr>)])
     (runes ''{"description":"add audit log","body":"intro'' @ [92, 110, 92, 110, 92, 110]
        @ replicate 400 99 @ runes ''"}'')
   = Inr \<lparr>CommitType = runes ''chore'', Description = runes ''add audit log'', Summary = [],
          Body = runes ''intro'' @ [10] @ replicate 299 99 @ ellipsis\<rparr>
   \<and> RuneCountInString (runes ''intro'') \<le> 300
   \<and> RuneCountInString (replicate 299 99 @ ellipsis) \<le> 300\<close>
proof -
  let ?doc = \<open>runes ''{"description":"add audit log","body":"intro'' @ [92, 110, 92, 110, 92, 110]
                 @ replicate 400 99 @ runes ''"}''\<close>
  let ?p = "\<lparr>CommitType = [], Description = runes ''add audit log'', Summary = [],
                Body = runes ''intro'' @ [10, 10, 10] @ replicate 400 99\<rparr>"
  let ?q = "\<lparr>CommitType = runes ''chore'', Description = runes ''add audit log'', Summary = [],
          Body = runes ''intro'' @ [10] @ replicate 299 99 @ ellipsis\<rparr>"
  have r: "ParseParts (\<lambda>r. r) allowedCommitTypes (map_of [(?doc, ?p)]) ?doc = Inr ?q"
    by code_simp
  have s: "Split (Parts.Body ?q) 10 = [runes ''intro'', replicate 299 99 @ ellipsis]"
    by code_simp
  show ?thesis
    using r s ParseParts_body_lines [OF r] by simp
qed

section \<open>Package ollama: Generate\<close>

lemma Split_nonempty: "Split s sep \<noteq> []"
  by (induction s) (auto split: list.splits)

lemma Scan_pieces_short:
  "pieces \<noteq> [] \<Longrightarrow> \<forall>p \<in> set pieces. len p < MaxScanTokenSize \<Longrightarrow>
   Scan_pieces e pieces =
     map Token (map dropCR (if last pieces = [] then butlast pieces else pieces))"
  by (induction e pieces rule: Scan_pieces.induct) auto

lemma Scan_short:
  "\<forall>p \<in> set (Split body 10). len p < MaxScanTokenSize \<Longrightarrow>
   Scan e body = map Token (body_lines body)"
  using Scan_pieces_short [OF Split_nonempty, of body 10 e]
  by (simp add: Scan_def body_lines_def Let_def)

lemma scan_loop_tokens:
  "scan_loop unmarshal (map Token lines) out =
     (out @ concat (map Response
        (takeWhile (\<lambda>c. \<not> Done c) (List.map_filter unmarshal lines)
         @ take 1 (dropWhile (\<lambda>c. \<not> Done c) (List.map_filter unmarshal lines)))), None)"
proof (induction lines arbitrary: out)
  case Nil
  then show ?case by (simp add: map_filter_simps)
next
  case (Cons line rest)
  then show ?case
    by (cases "unmarshal line") (simp_all add: map_filter_simps Let_def)
qed

lemma scan_loop_skip:
  "unmarshal line = None \<Longrightarrow>
   scan_loop unmarshal (before @ Token line # after) out = scan_loop unmarshal (before @ after) out"
proof (induction before arbitrary: out)
  case Nil
  then show ?case by simp
next
  case (Cons item before)
  then show ?case
    by (cases item) (simp_all add: Let_def split: option.splits)
qed

lemma len_replicate: "len (replicate n r) = int n * RuneLen r"
  by (induction n) (simp_all add: len_def algebra_simps)

lemma Generate_line_too_long:
  assumes "StatusCode resp < 300" "resp_Body resp = line @ 10 # rest"
    and "10 \<notin> set line" "MaxScanTokenSize \<le> len line"
  shows "Generate unmarshal resp = Inl (scanner_error ErrTooLong)"
proof -
  obtain piece pieces where "Split rest 10 = piece # pieces"
    using Split_nonempty [of rest 10] by (cases "Split rest 10") auto
  then have "Split (resp_Body resp) 10 = line # piece # pieces"
    using assms(2,3) by (simp add: Split_append)
  then have "Scan (eof_with_data resp) (resp_Body resp) = [ErrTooLong]"
    using assms(4) by (simp add: Scan_def)
  then show ?thesis
    using assms(1) by (simp add: Generate_def)
qed

lemma Generate_spec_after_junk:
  assumes "10 \<notin> set junk" "10 \<notin> set line" "junk \<noteq> line" "line \<noteq> []" "Done c"
  shows "Generate_spec (map_of [(line, c)]) (junk @ 10 # line @ [10]) = Response c"
proof -
  have "Split (junk @ 10 # line @ [10]) 10 = [junk, line, []]"
    using assms(1,2) Split_append [of 10 line "[]"] by (simp add: Split_append)
  then show ?thesis
    using assms(3,4,5) by (simp add: Generate_spec_def map_filter_simps)
qed

lemma not_in_replicate: "x \<noteq> y \<Longrightarrow> y \<notin> set (replicate n x)"
  by simp

text \<open>
  Claim C3, as stated, fails in two ways. Generate returns the aggregated string with
  the white space around it trimmed: a response that starts with a space comes back
  without it. And the scanner delivers no line of 64 KiB or more: on a body whose
  first line has 65536 bytes, Generate returns the scanner's error and never reaches
  the record that carries the text.
\<close>

theorem Generate_counterexample:
  \<open>Generate
     (map_of [(runes ''{"response":" feat: ok","done":true}'',
               \<lparr>Response = runes '' feat: ok'', Done = True\<rparr>)])
     \<lparr>StatusCode = 200,
      resp_Body = runes ''{"response":" feat: ok","done":true}'' @ [10],
      eof_with_data = False\<rparr>
   = Inr (runes ''feat: ok'')
   \<and> Generate_spec
       (map_of [(runes ''{"response":" feat: ok","done":true}'',
                 \<lparr>Response = runes '' feat: ok'', Done = True\<rparr>)])
       (runes ''{"response":" feat: ok","done":true}'' @ [10])
     = runes '' feat: ok''
   \<and> Generate
       (map_of [(runes ''{"response":"feat: ok","done":true}'',
                 \<lparr>Response = runes ''feat: ok'', Done = True\<rparr>)])
       \<lparr>StatusCode = 200,
        resp_Body = replicate 65536 120 @ 10 # runes ''{"response":"feat: ok","done":true}'' @ [10],
        eof_with_data = False\<rparr>
     = Inl (scanner_error ErrTooLong)
   \<and> Generate_spec
       (map_of [(runes ''{"response":"feat: ok","done":true}'',
                 \<lparr>Response = runes ''feat: ok'', Done = True\<rparr>)])
       (replicate 65536 120 @ 10 # runes ''{"response":"feat: ok","done":true}'' @ [10])
     = runes ''feat: ok''\<close>
proof (intro conjI)
  let ?line = \<open>runes ''{"response":"feat: ok","done":true}''\<close>
  let ?c = "\<lparr>Response = runes ''feat: ok'', Done = True\<rparr>"
  let ?junk = "replicate 65536 (120::int)"
  let ?resp = "\<lparr>StatusCode = 200, resp_Body = ?junk @ 10 # ?line @ [10], eof_with_data = False\<rparr>"
  show \<open>Generate
     (map_of [(runes ''{"response":" feat: ok","done":true}'',
               \<lparr>Response = runes '' feat: ok'', Done = True\<rparr>)])
     \<lparr>StatusCode = 200,
      resp_Body = runes ''{"response":" feat: ok","done":true}'' @ [10],
      eof_with_data = False\<rparr>
   = Inr (runes ''feat: ok'')\<close>
    by code_simp
  show \<open>Generate_spec
       (map_of [(runes ''{"response":" feat: ok","done":true}'',
                 \<lparr>Response = runes '' feat: ok'', Done = True\<rparr>)])
       (runes ''{"response":" feat: ok","done":true}'' @ [10])
     = runes '' feat: ok''\<close>
    by code_simp
  have "(120::int) \<noteq> 10" by simp
  then have j: "10 \<notin> set ?junk" by (rule not_in_replicate)
  have l: "10 \<notin> set ?line" by (simp add: runes_def)
  have "len ?junk = 65536 * RuneLen 120" by (simp only: len_replicate)
  then have big: "MaxScanTokenSize \<le> len ?junk"
    by (simp add: RuneLen_def MaxScanTokenSize_def)
  have "StatusCode ?resp < 300" "resp_Body ?resp = ?junk @ 10 # (?line @ [10])"
    by simp_all
  then show "Generate (map_of [(?line, ?c)]) ?resp = Inl (scanner_error ErrTooLong)"
    using j big by (rule Generate_line_too_long)
  have "120 \<in> set ?junk" by simp
  moreover have "120 \<notin> set ?line" by (simp add: runes_def)
  ultimately have ne: "?junk \<noteq> ?line" by metis
  have "?line \<noteq> []" "Done ?c" by (simp_all add: runes_def)
  with j l ne have "Generate_spec (map_of [(?line, ?c)]) (?junk @ 10 # ?line @ [10]) = Response ?c"
    by (rule Generate_spec_after_junk)
  then show "Generate_spec (map_of [(?line, ?c)]) (?junk @ 10 # ?line @ [10]) = runes ''feat: ok''"
    by (simp only: Chunk.simps)
qed

text \<open>
  Claim C3, amended: for every response body with a status below 300 in which every
  piece between newlines is shorter than 64 KiB, Generate returns the concatenation,
  in arrival order, of the \<^verbatim>\<open>response\<close> fields of the lines that decode, up to and
  including the first one whose \<^verbatim>\<open>done\<close> flag is set, or of all of them when none
  is, with the white space at its two ends trimmed. A line is taken without its line
  end; a line that does not decode is left out and does not end the aggregation.
\<close>

theorem Generate_trimmed_concat:
  assumes "StatusCode resp < 300"
    and "\<forall>piece \<in> set (Split (resp_Body resp) 10). len piece < MaxScanTokenSize"
  shows "Generate unmarshal resp =
     Inr (TrimSpace (concat (map Response
       (takeWhile (\<lambda>c. \<not> Done c) (List.map_filter unmarshal (body_lines (resp_Body resp)))
        @ take 1 (dropWhile (\<lambda>c. \<not> Done c)
                    (List.map_filter unmarshal (body_lines (resp_Body resp))))))))"
  using assms(1) by (simp add: Generate_def Scan_short [OF assms(2)] scan_loop_tokens)

theorem Generate_trimmed_concat_witness:
  \<open>Generate
     (map_of [(runes ''{"response":" feat: add ","done":false}'',
                 \<lparr>Response = runes '' feat: add '', Done = False\<rparr>),
              (runes ''{"response":"hook ","done":true}'',
                 \<lparr>Response = runes ''hook '', Done = True\<rparr>),
              (runes ''{"response":"late","done":false}'',
                 \<lparr>Response = runes ''late'', Done = False\<rparr>)])
     \<lparr>StatusCode = 200,
      resp_Body = runes ''{"response":" feat: add ","done":false}'' @ [13, 10] @ [10]
        @ runes ''not json'' @ [10]
        @ runes ''{"response":"hook ","done":true}'' @ [10]
        @ runes ''{"response":"late","done":false}'',
      eof_with_data = False\<rparr>
   = Inr (runes ''feat: add hook'')\<close>
proof -
  let ?dec = \<open>map_of [(runes ''{"response":" feat: add ","done":false}'',
                 \<lparr>Response = runes '' feat: add '', Done = False\<rparr>),
              (runes ''{"response":"hook ","done":true}'',
                 \<lparr>Response = runes ''hook '', Done = True\<rparr>),
              (runes ''{"response":"late","done":false}'',
                 \<lparr>Response = runes ''late'', Done = False\<rparr>)]\<close>
  let ?body = \<open>runes ''{"response":" feat: add ","done":false}'' @ [13, 10] @ [10]
        @ runes ''not json'' @ [10]
        @ runes ''{"response":"hook ","done":true}'' @ [10]
        @ runes ''{"response":"late","done":false}''\<close>
  let ?resp = "\<lparr>StatusCode = 200, resp_Body = ?body, eof_with_data = False\<rparr>"
  let ?cs = "List.map_filter ?dec (body_lines ?body)"
  have e: "TrimSpace (concat (map Response
       (takeWhile (\<lambda>c. \<not> Done c) ?cs @ take 1 (dropWhile (\<lambda>c. \<not> Done c) ?cs))))
       = runes ''feat: add hook''"
    by code_simp
  have h1: "StatusCode ?resp < 300" by simp
  have "\<forall>piece \<in> set (Split ?body 10). len piece < MaxScanTokenSize"
    by code_simp
  then have h2: "\<forall>piece \<in> set (Split (resp_Body ?resp) 10). len piece < MaxScanTokenSize"
    by simp
  have b: "resp_Body ?resp = ?body" by simp
  from Generate_trimmed_concat [OF h1 h2, of ?dec] show ?thesis
    by (simp only: b e)
qed

end
